theory Spec2Isabelle
  imports Complex_Main "HOL-Library.Word" "HOL-Library.AList"
begin

section \<open>Python strings\<close>

text \<open>
  A Python \<open>str\<close> is modelled as a HOL \<open>string\<close>. One \<open>char\<close> stands for one code
  point in the range U+0000 .. U+00FF, so \<open>length\<close> counts code points as Python's
  \<open>len\<close> does. The character classes below are the ones CPython uses for \<open>str\<close>
  methods and for \<open>re\<close> on \<open>str\<close> patterns, restricted to that range.
\<close>

definition ord :: "char \<Rightarrow> nat" where
  "ord c = of_char c"

definition in_range :: "nat \<Rightarrow> nat \<Rightarrow> char \<Rightarrow> bool" where
  "in_range lo hi c = (lo \<le> ord c \<and> ord c \<le> hi)"

definition is_az09 :: "char \<Rightarrow> bool" where
  \<comment> \<open>the class \<open>[a-z0-9]\<close>\<close>
  "is_az09 c = (in_range 97 122 c \<or> in_range 48 57 c)"

definition is_upper_AZ :: "char \<Rightarrow> bool" where
  \<comment> \<open>the class \<open>[A-Z]\<close>\<close>
  "is_upper_AZ c = in_range 65 90 c"

definition py_isspace :: "char \<Rightarrow> bool" where
  \<comment> \<open>\<open>str.isspace\<close>, \<open>str.strip()\<close> and the class \<open>\s\<close>\<close>
  "py_isspace c = (in_range 9 13 c \<or> in_range 28 32 c \<or> ord c = 133 \<or> ord c = 160)"

definition is_decimal :: "char \<Rightarrow> bool" where
  \<comment> \<open>the class \<open>\d\<close>\<close>
  "is_decimal c = in_range 48 57 c"

definition py_isdigit :: "char \<Rightarrow> bool" where
  \<comment> \<open>\<open>str.isdigit\<close>: the decimal digits and the superscripts 2, 3, 1\<close>
  "py_isdigit c = (is_decimal c \<or> ord c = 178 \<or> ord c = 179 \<or> ord c = 185)"

definition is_alpha :: "char \<Rightarrow> bool" where
  "is_alpha c = (in_range 65 90 c \<or> in_range 97 122 c
      \<or> ord c = 170 \<or> ord c = 181 \<or> ord c = 186
      \<or> (in_range 192 255 c \<and> ord c \<noteq> 215 \<and> ord c \<noteq> 247))"

definition is_word :: "char \<Rightarrow> bool" where
  \<comment> \<open>the class \<open>\w\<close>: alphanumeric (letters, digits, vulgar fractions) or underscore\<close>
  "is_word c = (is_alpha c \<or> py_isdigit c \<or> in_range 188 190 c \<or> ord c = 95)"

definition lower_chr :: "char \<Rightarrow> char" where
  "lower_chr c = (if in_range 65 90 c \<or> (in_range 192 222 c \<and> ord c \<noteq> 215)
                  then char_of (ord c + 32) else c)"

definition py_lower :: "string \<Rightarrow> string" where
  \<comment> \<open>\<open>str.lower()\<close>\<close>
  "py_lower s = map lower_chr s"

definition py_strip :: "string \<Rightarrow> string" where
  \<comment> \<open>\<open>str.strip()\<close>\<close>
  "py_strip s = rev (dropWhile py_isspace (rev (dropWhile py_isspace s)))"

definition or_empty :: "string option \<Rightarrow> string" where
  \<comment> \<open>\<open>(s or "")\<close> for a value that is \<open>None\<close> or a \<open>str\<close>\<close>
  "or_empty s = (case s of None \<Rightarrow> [] | Some x \<Rightarrow> x)"

datatype error = TypeError | ValueError

section \<open>Regular expressions\<close>

text \<open>
  A compiled pattern is modelled by its matcher: given the character before the current
  position (\<open>None\<close> at the start of the text) and the text from the current position on,
  it returns the length of the match that Python's backtracking search finds there, or
  \<open>None\<close>. The three scanners below are \<open>finditer\<close>/\<open>findall\<close>, \<open>sub\<close> and \<open>search\<close>: they
  try each position from left to right and continue after a match. After an empty match
  they step one character forward; no pattern of this program matches both the empty
  string and a longer one at the same position.
\<close>

type_synonym matcher = "char option \<Rightarrow> string \<Rightarrow> nat option"

fun finditer :: "matcher \<Rightarrow> char option \<Rightarrow> string \<Rightarrow> string list" where
  "finditer m prev [] = (case m prev [] of None \<Rightarrow> [] | Some n \<Rightarrow> [[]])"
| "finditer m prev (c # cs) =
     (case m prev (c # cs) of
        None \<Rightarrow> finditer m (Some c) cs
      | Some 0 \<Rightarrow> [] # finditer m (Some c) cs
      | Some (Suc k) \<Rightarrow>
          take (Suc k) (c # cs) # finditer m (Some (last (take (Suc k) (c # cs)))) (drop k cs))"

fun re_sub :: "matcher \<Rightarrow> (string \<Rightarrow> string) \<Rightarrow> char option \<Rightarrow> string \<Rightarrow> string" where
  "re_sub m repl prev [] = (case m prev [] of None \<Rightarrow> [] | Some n \<Rightarrow> repl [])"
| "re_sub m repl prev (c # cs) =
     (case m prev (c # cs) of
        None \<Rightarrow> c # re_sub m repl (Some c) cs
      | Some 0 \<Rightarrow> repl [] @ c # re_sub m repl (Some c) cs
      | Some (Suc k) \<Rightarrow>
          repl (take (Suc k) (c # cs))
            @ re_sub m repl (Some (last (take (Suc k) (c # cs)))) (drop k cs))"

fun re_search :: "matcher \<Rightarrow> char option \<Rightarrow> string \<Rightarrow> string option" where
  "re_search m prev [] = (case m prev [] of None \<Rightarrow> None | Some n \<Rightarrow> Some [])"
| "re_search m prev (c # cs) =
     (case m prev (c # cs) of
        None \<Rightarrow> re_search m (Some c) cs
      | Some n \<Rightarrow> Some (take n (c # cs)))"

definition word_boundary :: "char option \<Rightarrow> string \<Rightarrow> bool" where
  \<comment> \<open>\<open>\b\<close>: exactly one of the two neighbouring characters is a word character\<close>
  "word_boundary prev s =
     ((case prev of None \<Rightarrow> False | Some p \<Rightarrow> is_word p)
        \<noteq> (case s of [] \<Rightarrow> False | c # _ \<Rightarrow> is_word c))"

definition m_plus :: "(char \<Rightarrow> bool) \<Rightarrow> matcher" where
  \<comment> \<open>\<open>C+\<close> for a character class \<open>C\<close>: the longest non-empty run\<close>
  "m_plus P prev s = (case length (takeWhile P s) of 0 \<Rightarrow> None | Suc k \<Rightarrow> Some (Suc k))"

section \<open>Text normalizer\<close>

text \<open>
  \<open>normalize_text\<close> of \<open>nazario_census.py\<close> (and, word for word, of \<open>urlscan.py\<close>):
  \<^verbatim>\<open>s = (s or "").lower(); s = re.sub(r"[^a-z0-9]+", " ", s);\<close>
  \<^verbatim>\<open>return re.sub(r"\s+", " ", s).strip()\<close>
\<close>

definition normalize_text :: "string option \<Rightarrow> string" where
  "normalize_text s =
     (let s1 = py_lower (or_empty s);
          s2 = re_sub (m_plus (\<lambda>c. \<not> is_az09 c)) (\<lambda>_. '' '') None s1
      in py_strip (re_sub (m_plus py_isspace) (\<lambda>_. '' '') None s2))"

text \<open>
  \<open>normalize_text\<close> of \<open>nazario.py\<close> (and of \<open>images.py\<close>): the same steps behind an
  explicit guard \<^verbatim>\<open>if not s: return ""\<close>.
\<close>

definition nazario_normalize_text :: "string option \<Rightarrow> string" where
  "nazario_normalize_text s =
     (case s of
        None \<Rightarrow> []
      | Some x \<Rightarrow>
          if x = [] then []
          else (let s1 = py_lower x;
                    s2 = re_sub (m_plus (\<lambda>c. \<not> is_az09 c)) (\<lambda>_. '' '') None s1
                in py_strip (re_sub (m_plus py_isspace) (\<lambda>_. '' '') None s2)))"

section \<open>Lexicon and pattern compiler (\<open>cues.py\<close>)\<close>

text \<open>
  A Python \<open>dict\<close> is an association list in insertion order: \<open>map_of\<close> reads a key and
  \<open>AList.update\<close> stores one (in place when the key is present, at the end otherwise).
\<close>

definition CUE_LEXICON :: "(string \<times> string list) list" where
  "CUE_LEXICON =
    [(''authority'',
        [''official notice'', ''account review team'', ''security team'', ''compliance team'',
         ''verified badge'', ''support team'', ''customer service'', ''help center'',
         ''administrator'', ''admin'', ''security'', ''support'', ''service'', ''notice'']),
     (''urgency'',
        [''urgent action required'', ''act now'', ''immediate action'', ''final notice'',
         ''expires soon'', ''deadline'', ''verify within 24 hours'',
         ''urgent'', ''immediately'', ''now'', ''today'', ''minutes'', ''hours'', ''24 hours'']),
     (''scarcity'',
        [''only a few left'', ''limited availability'', ''limited slots'', ''while supplies last'',
         ''limited'', ''last chance'', ''only today'']),
     (''fear_loss'',
        [''unusual activity detected'', ''unauthorised login'', ''unauthorized login'',
         ''your account is locked'', ''payment failed'', ''suspicious activity'',
         ''security alert'', ''fraud alert'',
         ''suspended'', ''suspension'', ''locked'', ''disabled'', ''restricted'',
         ''compromised'', ''violation'', ''failed'', ''failure'', ''alert'', ''warning'']),
     (''consistency_commitment'',
        [''confirm your identity'', ''verify your account'', ''update your details'',
         ''complete your profile'', ''continue to your account'',
         ''confirm'', ''verify'', ''update'', ''continue'', ''proceed'', ''submit'', ''resolve'',
         ''login'', ''sign in'', ''reset'', ''password'', ''identity'', ''account'']),
     (''similarity_socialproof'',
        [''people like you'', ''as recommended'', ''popular choice'', ''trending now'',
         ''recommended'', ''popular'', ''trending'']),
     (''reward_reciprocity'',
        [''claim your reward'', ''you have won'', ''exclusive offer'', ''congratulations'',
         ''reward'', ''bonus'', ''voucher'', ''gift'', ''prize'']),
     (''brand_trust'',
        [''amazon'', ''barclays'', ''facebook'', ''meta'', ''instagram'', ''mastercard'',
         ''netflix'', ''paypal'', ''apple'', ''microsoft'', ''google'', ''coinbase'', ''uphold'',
         ''telenet''])]"

text \<open>
  \<open>re.escape\<close> makes every character of the phrase stand for itself, so the pattern
  \<^verbatim>\<open>r"\b" + re.escape(phrase) + r"\b"\<close> is a sequence of atoms: a word boundary, the
  characters of the phrase as literals, a word boundary. With \<open>re.IGNORECASE\<close> a
  literal matches a character with the same lower-case form.
\<close>

datatype atom = WordBoundary | Literal char

fun match_atoms :: "bool \<Rightarrow> atom list \<Rightarrow> matcher" where
  "match_atoms ic [] prev s = Some 0"
| "match_atoms ic (WordBoundary # as) prev s =
     (if word_boundary prev s then match_atoms ic as prev s else None)"
| "match_atoms ic (Literal a # as) prev [] = None"
| "match_atoms ic (Literal a # as) prev (c # cs) =
     (if (if ic then lower_chr c = lower_chr a else c = a)
      then map_option Suc (match_atoms ic as (Some c) cs) else None)"

definition phrase_pattern :: "string \<Rightarrow> atom list" where
  "phrase_pattern phrase = WordBoundary # map Literal phrase @ [WordBoundary]"

type_synonym patterns = "(string \<times> (matcher \<times> string) list) list"

definition compile_patterns :: "(string \<times> string list) list \<Rightarrow> patterns" where
  "compile_patterns lexicon =
     foldl (\<lambda>patterns (category, phrases).
              AList.update category
                (map (\<lambda>phrase. (match_atoms True (phrase_pattern phrase), phrase)) phrases)
                patterns)
       [] lexicon"

definition PATTERNS :: patterns where
  "PATTERNS = compile_patterns CUE_LEXICON"

section \<open>Cue detector (\<open>cues.py\<close>)\<close>

text \<open>
  The text handed to \<open>detect_cues\<close> is \<open>None\<close> or a \<open>str\<close>. \<open>regex_obj.finditer(None)\<close>
  raises \<open>TypeError\<close>, so the first pattern tried on \<open>None\<close> ends the call.
\<close>

type_synonym phrase_counts = "(string \<times> int) list"
type_synonym detection = "(string \<times> phrase_counts) list"

fun count_phrases ::
  "(matcher \<times> string) list \<Rightarrow> string option \<Rightarrow> phrase_counts \<Rightarrow> error + phrase_counts" where
  "count_phrases [] text d = Inr d"
| "count_phrases ((regex_obj, phrase) # plist) text d =
     (case text of
        None \<Rightarrow> Inl TypeError
      | Some t \<Rightarrow>
          (let count = int (length (finditer regex_obj None t))
           in count_phrases plist text (if count > 0 then AList.update phrase count d else d)))"

fun detect_loop :: "patterns \<Rightarrow> string option \<Rightarrow> detection \<Rightarrow> error + detection" where
  "detect_loop [] text results = Inr results"
| "detect_loop ((category, plist) # rest) text results =
     (case count_phrases plist text [] of
        Inl e \<Rightarrow> Inl e
      | Inr d \<Rightarrow> detect_loop rest text (AList.update category d results))"

definition detect_cues :: "string option \<Rightarrow> error + detection" where
  "detect_cues text = detect_loop PATTERNS text []"

definition summarize_counts :: "detection \<Rightarrow> (string \<times> int) list" where
  "summarize_counts matches =
     foldl (\<lambda>totals (category, phrase_counts).
              AList.update category (sum_list (map snd phrase_counts)) totals)
       [] matches"

section \<open>Surface heuristics and \<open>detect_with_extras\<close> (\<open>nazario.py\<close>, \<open>images.py\<close>)\<close>

definition ci_prefix :: "string \<Rightarrow> string \<Rightarrow> bool" where
  \<comment> \<open>the text starts with the literal, compared case-insensitively\<close>
  "ci_prefix p s = (length p \<le> length s \<and> map lower_chr (take (length p) s) = map lower_chr p)"

definition RE_ALL_CAPS :: matcher where
  \<comment> \<open>\<^verbatim>\<open>\b[A-Z]{2,}\b\<close>: a whole run of capitals; a shorter one would end inside the word\<close>
  "RE_ALL_CAPS prev s =
     (let run = takeWhile is_upper_AZ s; n = length run
      in if word_boundary prev s \<and> 2 \<le> n \<and> word_boundary (Some (last run)) (drop n s)
         then Some n else None)"

definition RE_EXCLAM :: matcher where
  \<comment> \<open>\<^verbatim>\<open>!+\<close>\<close>
  "RE_EXCLAM = m_plus (\<lambda>c. c = CHR ''!'')"

definition RE_MONEY :: matcher where
  \<comment> \<open>the class of pound, dollar and euro signs; the euro sign is beyond U+00FF\<close>
  "RE_MONEY prev s =
     (case s of [] \<Rightarrow> None | c # _ \<Rightarrow> if ord c = 163 \<or> c = CHR ''$'' then Some 1 else None)"

definition RE_LINK :: matcher where
  \<comment> \<open>\<^verbatim>\<open>(https?://|www\.)\<close> with \<open>re.IGNORECASE\<close>\<close>
  "RE_LINK prev s =
     (if ci_prefix ''https://'' s then Some 8
      else if ci_prefix ''http://'' s then Some 7
      else if ci_prefix ''www.'' s then Some 4 else None)"

definition DEOBF_HXXP :: matcher where
  \<comment> \<open>\<^verbatim>\<open>\bhxxps?://\<close> with \<open>re.IGNORECASE\<close>\<close>
  "DEOBF_HXXP prev s =
     (if \<not> word_boundary prev s then None
      else if ci_prefix ''hxxps://'' s then Some 8
      else if ci_prefix ''hxxp://'' s then Some 7 else None)"

definition DEOBF_DOT :: matcher where
  \<comment> \<open>\<^verbatim>\<open>\[(\.)\]\<close>\<close>
  "DEOBF_DOT prev s = (if take 3 s = ''[.]'' then Some 3 else None)"

definition deobfuscate_iocs :: "string \<Rightarrow> string" where
  "deobfuscate_iocs s =
     (if s = [] then []
      else (let s1 = re_sub DEOBF_HXXP
                       (\<lambda>m. if take 5 (py_lower m) = ''hxxps'' then ''https://'' else ''http://'')
                       None s
            in re_sub DEOBF_DOT (\<lambda>_. ''.'') None s1))"

record extras =
  all_caps_words :: int
  exclamations :: int
  money_symbols :: int
  links :: int

definition surface_extras :: "string \<Rightarrow> extras" where
  \<comment> \<open>the \<open>extras\<close> dictionary that both \<open>detect_with_extras\<close> build from the text\<close>
  "surface_extras text =
     \<lparr> all_caps_words = int (length (finditer RE_ALL_CAPS None text)),
       exclamations = int (length (finditer RE_EXCLAM None text)),
       money_symbols = int (length (finditer RE_MONEY None text)),
       links = int (length (finditer RE_LINK None text)) \<rparr>"

text \<open>\<open>detect_with_extras\<close> of \<open>nazario.py\<close>: one pass over the deobfuscated text.\<close>

definition detect_with_extras :: "string option \<Rightarrow> error + ((string \<times> int) list \<times> extras)" where
  "detect_with_extras text0 =
     (let text = deobfuscate_iocs (case text0 of None \<Rightarrow> [] | Some t \<Rightarrow> t)
      in case detect_cues (Some text) of
           Inl e \<Rightarrow> Inl e
         | Inr matches \<Rightarrow> Inr (summarize_counts matches, surface_extras text))"

text \<open>
  \<open>detect_with_extras\<close> of \<open>images.py\<close>: a pass over the raw text, a pass over
  \<open>normalize_text(text)\<close>, and the phrase counts of the two added up.
\<close>

definition copy_counts :: "detection \<Rightarrow> detection" where
  "copy_counts matches_raw =
     foldl (\<lambda>merged (category, phrase_counts).
              AList.update category
                (foldl (\<lambda>d (phrase, count). AList.update phrase count d) [] phrase_counts)
                merged)
       [] matches_raw"

definition add_counts :: "detection \<Rightarrow> detection \<Rightarrow> detection" where
  "add_counts merged0 matches_norm =
     foldl (\<lambda>merged (category, phrase_counts).
              (let inner = (case map_of merged category of None \<Rightarrow> [] | Some d \<Rightarrow> d)
               in AList.update category
                    (foldl (\<lambda>d (phrase, count).
                              (let old_count = (case map_of d phrase of None \<Rightarrow> 0 | Some n \<Rightarrow> n)
                               in AList.update phrase (old_count + count) d))
                       inner phrase_counts)
                    merged))
       merged0 matches_norm"

definition images_detect_with_extras ::
  "string option \<Rightarrow> error + ((string \<times> int) list \<times> extras)" where
  "images_detect_with_extras text0 =
     (let text = (case text0 of None \<Rightarrow> [] | Some t \<Rightarrow> t)
      in case detect_cues (Some text) of
           Inl e \<Rightarrow> Inl e
         | Inr matches_raw \<Rightarrow>
             (case detect_cues (Some (nazario_normalize_text (Some text))) of
                Inl e \<Rightarrow> Inl e
              | Inr matches_norm \<Rightarrow>
                  Inr (summarize_counts (add_counts (copy_counts matches_raw) matches_norm),
                       surface_extras text)))"

section \<open>HTML stripping and subject normalisation (\<open>nazario_census.py\<close>)\<close>

text \<open>
  \<open>RE_SCRIPTS\<close> is \<^verbatim>\<open><\s*(script|style)[^>]*>.*?<\s*/\s*\1\s*>\<close> with \<open>IGNORECASE\<close> and
  \<open>DOTALL\<close>. After \<^verbatim>\<open><\<close> and blanks the group takes \<open>script\<close> or \<open>style\<close> in any case;
  \<open>[^>]*>\<close> runs to the first \<^verbatim>\<open>>\<close>; the lazy \<open>.*?\<close> stops at the first position where
  the closing tag matches, whose name is the group's text compared case-insensitively.
\<close>

definition script_name :: "string \<Rightarrow> string option" where
  "script_name r =
     (if ci_prefix ''script'' r then Some (take 6 r)
      else if ci_prefix ''style'' r then Some (take 5 r) else None)"

definition close_at :: "string \<Rightarrow> string \<Rightarrow> string option" where
  \<comment> \<open>\<^verbatim>\<open><\s*/\s*\1\s*>\<close> at the start of \<open>t\<close>: the text after the match\<close>
  "close_at g t =
     (case t of
        [] \<Rightarrow> None
      | c # a \<Rightarrow>
          if c \<noteq> CHR ''<'' then None
          else (case dropWhile py_isspace a of
                  [] \<Rightarrow> None
                | d # b \<Rightarrow>
                    if d \<noteq> CHR ''/'' then None
                    else (let b' = dropWhile py_isspace b
                          in if \<not> ci_prefix g b' then None
                             else (case dropWhile py_isspace (drop (length g) b') of
                                     [] \<Rightarrow> None
                                   | e # rest \<Rightarrow> if e = CHR ''>'' then Some rest else None))))"

fun find_close :: "string \<Rightarrow> string \<Rightarrow> string option" where
  "find_close g [] = close_at g []"
| "find_close g (c # t) =
     (case close_at g (c # t) of Some rest \<Rightarrow> Some rest | None \<Rightarrow> find_close g t)"

definition RE_SCRIPTS :: matcher where
  "RE_SCRIPTS prev s =
     (case s of
        [] \<Rightarrow> None
      | c # r1 \<Rightarrow>
          if c \<noteq> CHR ''<'' then None
          else (let r2 = dropWhile py_isspace r1
                in case script_name r2 of
                     None \<Rightarrow> None
                   | Some g \<Rightarrow>
                       (case dropWhile (\<lambda>x. x \<noteq> CHR ''>'') (drop (length g) r2) of
                          [] \<Rightarrow> None
                        | _ # r5 \<Rightarrow>
                            (case find_close g r5 of
                               None \<Rightarrow> None
                             | Some rest \<Rightarrow> Some (length s - length rest)))))"

definition RE_TAGS :: matcher where
  \<comment> \<open>\<^verbatim>\<open><[^>]+>\<close>: at least one character other than \<^verbatim>\<open>>\<close> up to the next \<^verbatim>\<open>>\<close>\<close>
  "RE_TAGS prev s =
     (case s of
        [] \<Rightarrow> None
      | c # cs \<Rightarrow>
          if c \<noteq> CHR ''<'' then None
          else (let body = takeWhile (\<lambda>x. x \<noteq> CHR ''>'') cs
                in if body \<noteq> [] \<and> length body < length cs
                   then Some (length body + 2) else None))"

definition html_to_text :: "string \<Rightarrow> string" where
  "html_to_text html =
     (if html = [] then []
      else (let h1 = re_sub RE_SCRIPTS (\<lambda>_. '' '') None html;
                h2 = re_sub RE_TAGS (\<lambda>_. '' '') None h1
            in py_strip (re_sub (m_plus py_isspace) (\<lambda>_. '' '') None h2)))"

definition subject_marker :: matcher where
  \<comment> \<open>\<^verbatim>\<open>^(re|fw|fwd)\s*:\s*\<close>: only at the start of the text, alternatives in order\<close>
  "subject_marker prev s =
     (if prev \<noteq> None then None
      else (let try = (\<lambda>a. if take (length a) s = a
                           then (let r = drop (length a) s; w1 = takeWhile py_isspace r
                                 in case dropWhile py_isspace r of
                                      [] \<Rightarrow> None
                                    | c # r' \<Rightarrow>
                                        if c = CHR '':''
                                        then Some (length a + length w1 + 1
                                                     + length (takeWhile py_isspace r'))
                                        else None)
                           else None)
            in case try ''re'' of
                 Some n \<Rightarrow> Some n
               | None \<Rightarrow> (case try ''fw'' of Some n \<Rightarrow> Some n | None \<Rightarrow> try ''fwd'')))"

definition normalize_subject :: "string option \<Rightarrow> string" where
  "normalize_subject subj =
     (let s = py_lower (py_strip (or_empty subj));
          s1 = re_sub subject_marker (\<lambda>_. []) None s
      in re_sub (m_plus py_isspace) (\<lambda>_. '' '') None s1)"

section \<open>Rows and field lookup\<close>

text \<open>
  A row of \<open>csv.DictReader\<close> maps a column name to a \<open>str\<close>, or to \<open>None\<close> when the line
  is shorter than the header; a name that is no column is absent.
\<close>

type_synonym row = "string \<Rightarrow> string option option"

definition LIKELY_SUBJECT_KEYS :: "string list" where
  "LIKELY_SUBJECT_KEYS = [''subject'', ''subj'', ''title'', ''headline'']"

definition LIKELY_HTML_KEYS :: "string list" where
  "LIKELY_HTML_KEYS = [''sanitized_body'', ''body_html'', ''message_html'', ''content_html'']"

definition LIKELY_BODY_KEYS :: "string list" where
  "LIKELY_BODY_KEYS = [''body_snippet'', ''body'', ''text'', ''message'', ''content'', ''payload'',
                       ''description'', ''body_text'', ''email'', ''data'']"

definition safe_get :: "row \<Rightarrow> string \<Rightarrow> string" where
  "safe_get row key = (case row key of None \<Rightarrow> [] | Some None \<Rightarrow> [] | Some (Some v) \<Rightarrow> v)"

fun first_present :: "row \<Rightarrow> string list \<Rightarrow> string" where
  "first_present row [] = []"
| "first_present row (k # keys) =
     (let v = safe_get row k in if py_strip v \<noteq> [] then v else first_present row keys)"

definition is_email_like :: "row \<Rightarrow> bool" where
  "is_email_like row =
     (let subj = first_present row LIKELY_SUBJECT_KEYS;
          body_any = first_present row (LIKELY_HTML_KEYS @ LIKELY_BODY_KEYS)
      in (subj \<noteq> [] \<and> py_strip subj \<noteq> []) \<or> (body_any \<noteq> [] \<and> py_strip body_any \<noteq> []))"

section \<open>Year resolver\<close>

definition YEAR_MIN :: int where "YEAR_MIN = 2005"
definition YEAR_MAX :: int where "YEAR_MAX = 2024"

definition YEAR_RX :: matcher where
  \<comment> \<open>\<^verbatim>\<open>\b(19|20)\d{2}\b\<close>\<close>
  "YEAR_RX prev s =
     (if word_boundary prev s \<and> (take 2 s = ''19'' \<or> take 2 s = ''20'')
         \<and> 4 \<le> length s \<and> is_decimal (s ! 2) \<and> is_decimal (s ! 3)
         \<and> word_boundary (Some (s ! 3)) (drop 4 s)
      then Some 4 else None)"

definition py_int :: "string \<Rightarrow> error + int" where
  \<comment> \<open>\<open>int(y)\<close> on a string that passed \<open>isdigit\<close>: a superscript digit is no decimal\<close>
  "py_int y =
     (if y \<noteq> [] \<and> list_all is_decimal y
      then Inr (foldl (\<lambda>a c. 10 * a + (int (ord c) - 48)) 0 y)
      else Inl ValueError)"

definition valid_year :: "string \<Rightarrow> error + bool" where
  \<comment> \<open>\<open>_valid_year\<close>\<close>
  "valid_year y =
     (if y = [] \<or> \<not> list_all py_isdigit y \<or> length y \<noteq> 4 then Inr False
      else (case py_int y of
              Inl e \<Rightarrow> Inl e
            | Inr yi \<Rightarrow> Inr (YEAR_MIN \<le> yi \<and> yi \<le> YEAR_MAX)))"

definition extract_year_from_text :: "string \<Rightarrow> error + string" where
  "extract_year_from_text s =
     (if s = [] then Inr []
      else (case re_search YEAR_RX None s of
              None \<Rightarrow> Inr []
            | Some y \<Rightarrow>
                (case valid_year y of
                   Inl e \<Rightarrow> Inl e
                 | Inr ok \<Rightarrow> Inr (if ok then y else []))))"

record YearAudit =
  date_valid :: int
  fallback_file :: int
  unknown :: int
  date_out_of_range :: int

definition date_year_out_of_range :: "string \<Rightarrow> error + bool" where
  \<comment> \<open>the condition \<^verbatim>\<open>raw_date and YEAR_RX.search(raw_date) and not _valid_year(...group(0))\<close>\<close>
  "date_year_out_of_range raw_date =
     (if raw_date = [] then Inr False
      else (case re_search YEAR_RX None raw_date of
              None \<Rightarrow> Inr False
            | Some y \<Rightarrow> (case valid_year y of Inl e \<Rightarrow> Inl e | Inr ok \<Rightarrow> Inr (\<not> ok))))"

definition guess_year_with_audit ::
  "row \<Rightarrow> string \<Rightarrow> YearAudit \<Rightarrow> error + (string \<times> YearAudit)" where
  "guess_year_with_audit row filename audit =
     (let raw_date = safe_get row ''date''
      in case extract_year_from_text raw_date of
           Inl e \<Rightarrow> Inl e
         | Inr y_date \<Rightarrow>
             (case valid_year y_date of
                Inl e \<Rightarrow> Inl e
              | Inr True \<Rightarrow> Inr (y_date, audit\<lparr>date_valid := date_valid audit + 1\<rparr>)
              | Inr False \<Rightarrow>
                  (case date_year_out_of_range raw_date of
                     Inl e \<Rightarrow> Inl e
                   | Inr oor \<Rightarrow>
                       (let audit1 = (if oor
                                      then audit\<lparr>date_out_of_range := date_out_of_range audit + 1\<rparr>
                                      else audit)
                        in case extract_year_from_text filename of
                             Inl e \<Rightarrow> Inl e
                           | Inr y_file \<Rightarrow>
                               (case valid_year y_file of
                                  Inl e \<Rightarrow> Inl e
                                | Inr True \<Rightarrow>
                                    Inr (y_file,
                                         audit1\<lparr>fallback_file := fallback_file audit1 + 1\<rparr>)
                                | Inr False \<Rightarrow>
                                    Inr ([], audit1\<lparr>unknown := unknown audit1 + 1\<rparr>))))))"

section \<open>Content hash\<close>

text \<open>
  \<open>hashlib.sha1(cont_norm.encode("utf-8")).hexdigest()\<close>: SHA-1 (FIPS 180-4) over the
  UTF-8 bytes, as 40 lower-case hexadecimal digits.
\<close>

definition encode_utf8 :: "string \<Rightarrow> 8 word list" where
  "encode_utf8 s =
     concat (map (\<lambda>c. if ord c < 128 then [of_nat (ord c)]
                       else [of_nat (192 + ord c div 64), of_nat (128 + ord c mod 64)]) s)"

definition sha1_pad :: "8 word list \<Rightarrow> 8 word list" where
  "sha1_pad msg =
     (let bits = (of_nat (8 * length msg) :: 64 word)
      in msg @ [0x80] @ replicate ((119 - length msg mod 64) mod 64) 0
           @ map (\<lambda>i. ucast (drop_bit (8 * (7 - i)) bits)) [0..<8])"

fun be_words :: "8 word list \<Rightarrow> 32 word list" where
  "be_words (a # b # c # d # rest) =
     (push_bit 24 (ucast a) + push_bit 16 (ucast b) + push_bit 8 (ucast c) + ucast d) # be_words rest"
| "be_words _ = []"

fun sha1_expand :: "nat \<Rightarrow> 32 word list \<Rightarrow> 32 word list" where
  "sha1_expand 0 ws = ws"
| "sha1_expand (Suc n) ws =
     (let t = length ws
      in sha1_expand n
           (ws @ [word_rotl 1 (xor (xor (ws ! (t - 3)) (ws ! (t - 8)))
                                   (xor (ws ! (t - 14)) (ws ! (t - 16))))]))"

type_synonym sha1_state = "32 word \<times> 32 word \<times> 32 word \<times> 32 word \<times> 32 word"

definition sha1_round :: "nat \<Rightarrow> 32 word \<Rightarrow> sha1_state \<Rightarrow> sha1_state" where
  "sha1_round t w st =
     (case st of (a, b, c, d, e) \<Rightarrow>
        (let f = (if t < 20 then or (and b c) (and (not b) d)
                  else if t < 40 then xor (xor b c) d
                  else if t < 60 then or (or (and b c) (and b d)) (and c d)
                  else xor (xor b c) d);
             k = (if t < 20 then 0x5A827999 else if t < 40 then 0x6ED9EBA1
                  else if t < 60 then 0x8F1BBCDC else 0xCA62C1D6)
         in (word_rotl 5 a + f + e + k + w, a, word_rotl 30 b, c, d)))"

definition sha1_block :: "sha1_state \<Rightarrow> 32 word list \<Rightarrow> sha1_state" where
  "sha1_block h ws16 =
     (let ws = sha1_expand 64 ws16;
          r = foldl (\<lambda>st t. sha1_round t (ws ! t) st) h [0..<80]
      in case (h, r) of ((h0, h1, h2, h3, h4), (a, b, c, d, e)) \<Rightarrow>
           (h0 + a, h1 + b, h2 + c, h3 + d, h4 + e))"

function sha1_blocks :: "sha1_state \<Rightarrow> 32 word list \<Rightarrow> sha1_state" where
  "sha1_blocks h ws =
     (if length ws < 16 then h else sha1_blocks (sha1_block h (take 16 ws)) (drop 16 ws))"
  by pat_completeness auto
termination
  by (relation "measure (\<lambda>(h, ws). length ws)") auto

definition hex_digit :: "32 word \<Rightarrow> char" where
  "hex_digit w = ''0123456789abcdef'' ! unat (and w 15)"

definition hex32 :: "32 word \<Rightarrow> string" where
  "hex32 w = map (\<lambda>i. hex_digit (drop_bit (4 * (7 - i)) w)) [0..<8]"

definition sha1_hexdigest :: "string \<Rightarrow> string" where
  "sha1_hexdigest s =
     (case sha1_blocks (0x67452301, 0xEFCDAB89, 0x98BADCFE, 0x10325476, 0xC3D2E1F0)
             (be_words (sha1_pad (encode_utf8 s))) of
        (h0, h1, h2, h3, h4) \<Rightarrow> hex32 h0 @ hex32 h1 @ hex32 h2 @ hex32 h3 @ hex32 h4)"

section \<open>Signature builder\<close>

definition MIN_CONTENT_CHARS :: nat where "MIN_CONTENT_CHARS = 5"
definition MAX_EXAMPLES_PER_SIG :: nat where "MAX_EXAMPLES_PER_SIG = 3"

type_synonym signature = "string \<times> string \<times> string"

definition build_signature :: "row \<Rightarrow> signature" where
  "build_signature row =
     (let subj = first_present row LIKELY_SUBJECT_KEYS;
          subj_norm = normalize_subject (Some subj);
          from_domain = py_strip (py_lower (safe_get row ''from_domain''));
          body_html = first_present row LIKELY_HTML_KEYS;
          body_text = first_present row LIKELY_BODY_KEYS;
          content = (if py_strip body_html \<noteq> [] then html_to_text body_html else body_text);
          cont_norm = normalize_text (Some content);
          content_sig = (if length cont_norm < MIN_CONTENT_CHARS then []
                         else sha1_hexdigest cont_norm)
      in (from_domain, subj_norm, content_sig))"

section \<open>Census aggregator (\<open>main\<close> of \<open>nazario_census.py\<close>)\<close>

text \<open>
  \<open>main\<close> returns at once when the input directory or every CSV file is missing. What
  follows is the rest of it: the loop over the files and their rows, and the totals
  computed after the loop. The writing of the report files is not modelled. A Python
  \<open>float\<close> is a \<open>real\<close> here: the rounding of the quotient is not modelled.
\<close>

record csv_file =
  file_path :: string
  file_name :: string
  file_rows :: "row list"

record file_summary =
  summary_file :: string
  rows_total :: int
  email_like_rows :: int
  unique_signatures_in_file :: int

record census =
  total_rows_all :: int
  email_like_all :: int
  file_counts :: "file_summary list"
  sig_counter :: "(signature \<times> int) list"
  sig_examples :: "(signature \<times> (string \<times> string) list) list"
  sig_first_year :: "(signature \<times> string) list"
  per_year_raw :: "(string \<times> int) list"
  year_audit :: YearAudit

record file_state =
  rows_in_file :: int
  email_like_in_file :: int
  seen_sigs_this_file :: "signature list"

fun str_less :: "string \<Rightarrow> string \<Rightarrow> bool" where
  \<comment> \<open>\<open><\<close> on \<open>str\<close>: lexicographic by code point\<close>
  "str_less [] [] = False"
| "str_less [] (y # ys) = True"
| "str_less (x # xs) [] = False"
| "str_less (x # xs) (y # ys) = (ord x < ord y \<or> (x = y \<and> str_less xs ys))"

definition counter_get :: "('k \<times> int) list \<Rightarrow> 'k \<Rightarrow> int" where
  \<comment> \<open>reading a \<open>Counter\<close>: a missing key counts 0\<close>
  "counter_get cnt k = (case map_of cnt k of None \<Rightarrow> 0 | Some n \<Rightarrow> n)"

definition process_row :: "string \<Rightarrow> row \<Rightarrow> census \<times> file_state \<Rightarrow> error + (census \<times> file_state)" where
  "process_row name row st =
     (case st of (g, f) \<Rightarrow>
        (let f1 = f\<lparr>rows_in_file := rows_in_file f + 1\<rparr>;
             g1 = g\<lparr>total_rows_all := total_rows_all g + 1\<rparr>
         in if \<not> is_email_like row then Inr (g1, f1)
            else
              (let f2 = f1\<lparr>email_like_in_file := email_like_in_file f1 + 1\<rparr>;
                   g2 = g1\<lparr>email_like_all := email_like_all g1 + 1\<rparr>;
                   sig = build_signature row;
                   g3 = g2\<lparr>sig_counter :=
                              AList.update sig (counter_get (sig_counter g2) sig + 1) (sig_counter g2)\<rparr>;
                   examples = (case map_of (sig_examples g3) sig of None \<Rightarrow> [] | Some l \<Rightarrow> l);
                   g4 = g3\<lparr>sig_examples :=
                              AList.update sig
                                (if length examples < MAX_EXAMPLES_PER_SIG
                                 then examples @ [(name, take 200 (first_present row LIKELY_SUBJECT_KEYS))]
                                 else examples)
                                (sig_examples g3)\<rparr>
               in case guess_year_with_audit row name (year_audit g4) of
                    Inl e \<Rightarrow> Inl e
                  | Inr (yr, audit) \<Rightarrow>
                      (let g5 = g4\<lparr>year_audit := audit\<rparr>;
                           g6 = (if yr = [] then g5
                                 else (let g5a = g5\<lparr>per_year_raw :=
                                                     AList.update yr (counter_get (per_year_raw g5) yr + 1)
                                                       (per_year_raw g5)\<rparr>
                                       in case map_of (sig_first_year g5a) sig of
                                            None \<Rightarrow>
                                              g5a\<lparr>sig_first_year := AList.update sig yr (sig_first_year g5a)\<rparr>
                                          | Some y0 \<Rightarrow>
                                              if str_less yr y0
                                              then g5a\<lparr>sig_first_year :=
                                                         AList.update sig yr (sig_first_year g5a)\<rparr>
                                              else g5a));
                           f3 = (if sig \<in> set (seen_sigs_this_file f2) then f2
                                 else f2\<lparr>seen_sigs_this_file := seen_sigs_this_file f2 @ [sig]\<rparr>)
                       in Inr (g6, f3)))))"

fun process_rows :: "string \<Rightarrow> row list \<Rightarrow> census \<times> file_state \<Rightarrow> error + (census \<times> file_state)" where
  "process_rows name [] st = Inr st"
| "process_rows name (row # rows) st =
     (case process_row name row st of Inl e \<Rightarrow> Inl e | Inr st' \<Rightarrow> process_rows name rows st')"

definition process_file :: "csv_file \<Rightarrow> census \<Rightarrow> error + census" where
  "process_file path g =
     (case process_rows (file_name path) (file_rows path)
             (g, \<lparr>rows_in_file = 0, email_like_in_file = 0, seen_sigs_this_file = []\<rparr>) of
        Inl e \<Rightarrow> Inl e
      | Inr (g', f) \<Rightarrow>
          Inr (g'\<lparr>file_counts := file_counts g' @
                    [\<lparr>summary_file = file_path path, rows_total = rows_in_file f,
                      email_like_rows = email_like_in_file f,
                      unique_signatures_in_file = int (length (seen_sigs_this_file f))\<rparr>]\<rparr>))"

fun process_files :: "csv_file list \<Rightarrow> census \<Rightarrow> error + census" where
  "process_files [] g = Inr g"
| "process_files (path # paths) g =
     (case process_file path g of Inl e \<Rightarrow> Inl e | Inr g' \<Rightarrow> process_files paths g')"

definition census_init :: census where
  "census_init =
     \<lparr>total_rows_all = 0, email_like_all = 0, file_counts = [], sig_counter = [],
      sig_examples = [], sig_first_year = [], per_year_raw = [],
      year_audit = \<lparr>date_valid = 0, fallback_file = 0, unknown = 0, date_out_of_range = 0\<rparr>\<rparr>"

record census_totals =
  unique_emails :: int
  duplicates :: int
  dup_rate :: real
  per_year_unique :: "(string \<times> int) list"

definition main_totals :: "census \<Rightarrow> census_totals" where
  "main_totals g =
     (let unique_emails = int (length (sig_counter g));
          duplicates = max 0 (email_like_all g - unique_emails);
          dup_rate = (if email_like_all g \<noteq> 0
                      then real_of_int duplicates / real_of_int (email_like_all g) * 100 else 0)
      in \<lparr>unique_emails = unique_emails, duplicates = duplicates, dup_rate = dup_rate,
          per_year_unique =
            foldl (\<lambda>cnt (sig, yr). if yr \<noteq> [] then AList.update yr (counter_get cnt yr + 1) cnt else cnt)
              [] (sig_first_year g)\<rparr>)"

definition main_census :: "csv_file list \<Rightarrow> error + (census \<times> census_totals)" where
  "main_census csv_files =
     (case process_files csv_files census_init of
        Inl e \<Rightarrow> Inl e
      | Inr g \<Rightarrow> Inr (g, main_totals g))"

section \<open>Auxiliary notions for the proofs\<close>

text \<open>
  \<open>collapse P\<close> replaces every maximal run of characters in the class \<open>P\<close> by one
  blank: it is what \<open>re.sub\<close> does with a pattern \<open>C+\<close> and the replacement \<open>" "\<close>.
\<close>

function collapse :: "(char \<Rightarrow> bool) \<Rightarrow> string \<Rightarrow> string" where
  "collapse P [] = []"
| "collapse P (c # cs) = (if P c then CHR '' '' # collapse P (dropWhile P cs) else c # collapse P cs)"
  by pat_completeness auto
termination
  by (relation "measure (\<lambda>(P, s). length s)") (auto simp: length_dropWhile_le less_Suc_eq_le)

fun isolated :: "(char \<Rightarrow> bool) \<Rightarrow> string \<Rightarrow> bool" where
  "isolated P [] = True"
| "isolated P [c] = True"
| "isolated P (c # d # r) = (\<not> (P c \<and> P d) \<and> isolated P (d # r))"

definition norm_chars :: "string \<Rightarrow> bool" where
  "norm_chars s = (\<forall>c\<in>set s. c = CHR '' '' \<or> is_az09 c)"


text \<open>
  \<open>prev_after prev m\<close> is the character before the position that follows a match \<open>m\<close>.
  \<open>phrase_count t p\<close> is the number of non-overlapping matches of the compiled pattern of
  the phrase \<open>p\<close> in the text \<open>t\<close>; \<open>phrase_counts\<close> lists the positive ones in the order of
  the phrases.
\<close>

definition prev_after :: "char option \<Rightarrow> string \<Rightarrow> char option" where
  "prev_after prev m = (if m = [] then prev else Some (last m))"

definition phrase_count :: "string \<Rightarrow> string \<Rightarrow> int" where
  "phrase_count t p = int (length (finditer (match_atoms True (phrase_pattern p)) None t))"

definition phrase_counts :: "string \<Rightarrow> string list \<Rightarrow> phrase_counts" where
  "phrase_counts t ps = map (\<lambda>p. (p, phrase_count t p)) (filter (\<lambda>p. 0 < phrase_count t p) ps)"


text \<open>
  \<open>three_way\<close> adds the three counters of which every email-like row increments one.
  \<open>email_rows\<close> lists the email-like rows of a corpus in the order \<open>main\<close> reads them, and
  \<open>census_inv g rows\<close> is the invariant of the loop after the rows \<open>rows\<close>.
\<close>

definition three_way :: "YearAudit \<Rightarrow> int" where
  "three_way a = date_valid a + fallback_file a + unknown a"

definition email_rows :: "csv_file list \<Rightarrow> row list" where
  "email_rows files = filter is_email_like (concat (map file_rows files))"

definition census_inv :: "census \<Rightarrow> row list \<Rightarrow> bool" where
  "census_inv g rows =
     (email_like_all g = int (length (filter is_email_like rows))
      \<and> three_way (year_audit g) = email_like_all g
      \<and> date_out_of_range (year_audit g) \<le> fallback_file (year_audit g) + unknown (year_audit g)
      \<and> distinct (map fst (sig_counter g))
      \<and> set (map fst (sig_counter g)) = build_signature ` set (filter is_email_like rows))"

section \<open>The text normalizer is idempotent\<close>

lemma m_plus_Nil [simp]: "m_plus P prev [] = None"
  by (simp add: m_plus_def)

lemma m_plus_Cons: "m_plus P prev (c # cs) = (if P c then Some (Suc (length (takeWhile P cs))) else None)"
  by (simp add: m_plus_def)

lemma take_len_takeWhile: "take (length (takeWhile P xs)) xs = takeWhile P xs"
  by (induction xs) auto

lemma drop_len_takeWhile: "drop (length (takeWhile P xs)) xs = dropWhile P xs"
  by (induction xs) auto

lemma re_sub_plus_collapse: "re_sub (m_plus P) (\<lambda>_. '' '') prev s = collapse P s"
proof (induction P s arbitrary: prev rule: collapse.induct)
  case (1 P)
  show ?case by simp
next
  case (2 P c cs)
  show ?case
  proof (cases "P c")
    case True
    with 2(1) show ?thesis
      by (simp add: m_plus_Cons drop_len_takeWhile)
  next
    case False
    with 2(2) show ?thesis
      by (simp add: m_plus_Cons)
  qed
qed

lemma set_collapse: "x \<in> set (collapse P s) \<Longrightarrow> x = CHR '' '' \<or> (x \<in> set s \<and> \<not> P x)"
proof (induction P s rule: collapse.induct)
  case (1 P)
  then show ?case by simp
next
  case (2 P c cs)
  then show ?case
    by (auto split: if_splits dest: set_dropWhileD)
qed

lemma collapse_hd: "\<not> P c \<Longrightarrow> collapse P (c # cs) = c # collapse P cs"
  by simp

lemma isolated_collapse: "P (CHR '' '') \<Longrightarrow> isolated P (collapse P s)"
proof (induction P s rule: collapse.induct)
  case (1 P)
  then show ?case by simp
next
  case (2 P c cs)
  show ?case
  proof (cases "P c")
    case True
    have ih: "isolated P (collapse P (dropWhile P cs))" using 2(1) True 2(3) by simp
    show ?thesis
    proof (cases "dropWhile P cs")
      case Nil
      show ?thesis unfolding collapse.simps Nil using True by simp
    next
      case (Cons d ds)
      then have "\<not> P d" using hd_dropWhile[of P cs] by auto
      then show ?thesis unfolding collapse.simps(2)[of P c cs] using True ih unfolding Cons by simp
    qed
  next
    case False
    have ih: "isolated P (collapse P cs)" using 2(2) False 2(3) by simp
    show ?thesis
    proof (cases "collapse P cs")
      case Nil
      then show ?thesis using False by simp
    next
      case (Cons d ds)
      then show ?thesis using False ih by simp
    qed
  qed
qed

lemma collapse_fixed:
  "isolated P s \<Longrightarrow> \<forall>c\<in>set s. P c \<longrightarrow> c = CHR '' '' \<Longrightarrow> collapse P s = s"
proof (induction P s rule: isolated.induct)
  case (1 P)
  then show ?case by simp
next
  case (2 P c)
  then show ?case by simp
next
  case (3 P c d r)
  then show ?case by (cases "P c") auto
qed


lemma isolated_append_right: "isolated P (xs @ ys) \<Longrightarrow> isolated P ys"
proof (induction xs)
  case Nil
  then show ?case by simp
next
  case (Cons x xs)
  then show ?case by (cases "xs @ ys") auto
qed

lemma isolated_append_left: "isolated P (xs @ ys) \<Longrightarrow> isolated P xs"
proof (induction P xs rule: isolated.induct)
  case (1 P)
  then show ?case by simp
next
  case (2 P c)
  then show ?case by simp
next
  case (3 P c d r)
  then show ?case by simp
qed

lemma rev_dropWhile_decomp:
  "xs = rev (dropWhile P (rev xs)) @ rev (takeWhile P (rev xs))"
  by (metis rev_append rev_rev_ident takeWhile_dropWhile_id)

lemma py_strip_decomp: "\<exists>l t. s = l @ py_strip s @ t"
proof -
  let ?d = "dropWhile py_isspace s"
  have 1: "s = takeWhile py_isspace s @ ?d" by simp
  have 2: "?d = py_strip s @ rev (takeWhile py_isspace (rev ?d))"
    unfolding py_strip_def by (rule rev_dropWhile_decomp)
  show ?thesis using 1 2 by metis
qed

lemma isolated_py_strip: "isolated P s \<Longrightarrow> isolated P (py_strip s)"
proof -
  assume a: "isolated P s"
  obtain l t where "s = l @ py_strip s @ t" using py_strip_decomp by blast
  then have "isolated P (l @ py_strip s @ t)" using a by simp
  then show ?thesis using isolated_append_right isolated_append_left by blast
qed

lemma set_py_strip: "set (py_strip s) \<subseteq> set s"
proof -
  obtain l t where "s = l @ py_strip s @ t" using py_strip_decomp by blast
  then have "set s = set l \<union> set (py_strip s) \<union> set t"
    by (metis set_append Un_assoc)
  then show ?thesis by blast
qed

lemma dropWhile_rev_dropWhile:
  "dropWhile P (rev (dropWhile P (rev (dropWhile P s)))) = rev (dropWhile P (rev (dropWhile P s)))"
proof (cases "rev (dropWhile P (rev (dropWhile P s)))")
  case Nil
  then show ?thesis by (simp del: dropWhile_eq_Nil_conv)
next
  case (Cons e es)
  let ?d = "dropWhile P s"
  let ?v = "rev (dropWhile P (rev ?d))"
  have d: "?d = ?v @ rev (takeWhile P (rev ?d))" by (rule rev_dropWhile_decomp)
  have "?d \<noteq> []" using d Cons by (metis Nil_is_append_conv list.distinct(1))
  then have nP: "\<not> P (hd ?d)" using hd_dropWhile by blast
  have "hd ?d = e" using d Cons by (metis hd_append2 list.distinct(1) list.sel(1))
  then have "\<not> P e" using nP by simp
  then show ?thesis unfolding Cons by simp
qed

lemma py_strip_idem: "py_strip (py_strip s) = py_strip s"
  by (simp add: py_strip_def dropWhile_rev_dropWhile dropWhile_idem)

lemma py_strip_Nil [simp]: "py_strip [] = []"
  by (simp add: py_strip_def)


lemma isolated_mono: "isolated P s \<Longrightarrow> (\<And>c. Q c \<Longrightarrow> P c) \<Longrightarrow> isolated Q s"
  by (induction P s rule: isolated.induct) auto


lemma ord_space: "ord (CHR '' '') = 32"
  by code_simp

lemma space_classes: "py_isspace (CHR '' '')" "\<not> is_az09 (CHR '' '')" "lower_chr (CHR '' '') = CHR '' ''"
  by (simp_all add: py_isspace_def is_az09_def lower_chr_def in_range_def ord_space)

lemma az09_not_space: "py_isspace c \<Longrightarrow> \<not> is_az09 c"
  by (auto simp: py_isspace_def is_az09_def in_range_def)

lemma az09_lower: "is_az09 c \<Longrightarrow> lower_chr c = c"
  by (auto simp: is_az09_def lower_chr_def in_range_def)

lemma norm_chars_fixed:
  assumes nc: "norm_chars v" and iso: "isolated (\<lambda>c. \<not> is_az09 c) v"
  shows "py_lower v = v"
    and "collapse (\<lambda>c. \<not> is_az09 c) v = v"
    and "collapse py_isspace v = v"
proof -
  have "\<And>c. c \<in> set v \<Longrightarrow> lower_chr c = c"
  proof -
    fix c assume "c \<in> set v"
    then have "c = CHR '' '' \<or> is_az09 c" using nc unfolding norm_chars_def by simp
    then show "lower_chr c = c"
    proof
      assume "c = CHR '' ''" then show ?thesis by (simp add: space_classes(3))
    next
      assume "is_az09 c" then show ?thesis by (rule az09_lower)
    qed
  qed
  then show "py_lower v = v"
    unfolding py_lower_def by (simp add: map_idI)
  have 1: "\<forall>c\<in>set v. \<not> is_az09 c \<longrightarrow> c = CHR '' ''"
    using nc unfolding norm_chars_def by blast
  show "collapse (\<lambda>c. \<not> is_az09 c) v = v"
    by (rule collapse_fixed[OF iso 1])
  have 2: "isolated py_isspace v"
    using iso by (rule isolated_mono) (rule az09_not_space)
  have 3: "\<forall>c\<in>set v. py_isspace c \<longrightarrow> c = CHR '' ''"
  proof (intro ballI impI)
    fix c assume "c \<in> set v" "py_isspace c"
    then show "c = CHR '' ''" using 1 az09_not_space[of c] by simp
  qed
  show "collapse py_isspace v = v"
    by (rule collapse_fixed[OF 2 3])
qed

lemma collapse_norm:
  "norm_chars (collapse (\<lambda>c. \<not> is_az09 c) s)"
  "isolated (\<lambda>c. \<not> is_az09 c) (collapse (\<lambda>c. \<not> is_az09 c) s)"
proof -
  have "\<And>x. x \<in> set (collapse (\<lambda>c. \<not> is_az09 c) s) \<Longrightarrow> x = CHR '' '' \<or> is_az09 x"
  proof -
    fix x assume "x \<in> set (collapse (\<lambda>c. \<not> is_az09 c) s)"
    from set_collapse[OF this] show "x = CHR '' '' \<or> is_az09 x" by blast
  qed
  then show "norm_chars (collapse (\<lambda>c. \<not> is_az09 c) s)"
    unfolding norm_chars_def by simp
  show "isolated (\<lambda>c. \<not> is_az09 c) (collapse (\<lambda>c. \<not> is_az09 c) s)"
    by (rule isolated_collapse) (simp add: space_classes)
qed

lemma normalize_text_eq:
  "normalize_text x = py_strip (collapse (\<lambda>c. \<not> is_az09 c) (py_lower (or_empty x)))"
  by (simp add: normalize_text_def re_sub_plus_collapse norm_chars_fixed(3) collapse_norm)

lemma normalize_text_norm:
  "norm_chars (normalize_text x)" "isolated (\<lambda>c. \<not> is_az09 c) (normalize_text x)"
proof -
  let ?t = "collapse (\<lambda>c. \<not> is_az09 c) (py_lower (or_empty x))"
  show "norm_chars (normalize_text x)"
    using collapse_norm(1)[of "py_lower (or_empty x)"] set_py_strip[of ?t]
    unfolding normalize_text_eq norm_chars_def by blast
  show "isolated (\<lambda>c. \<not> is_az09 c) (normalize_text x)"
    unfolding normalize_text_eq by (rule isolated_py_strip) (rule collapse_norm(2))
qed

lemma normalize_text_idem: "normalize_text (Some (normalize_text x)) = normalize_text x"
proof -
  let ?v = "normalize_text x"
  have "normalize_text (Some ?v) = py_strip ?v"
    unfolding normalize_text_eq[of "Some ?v"]
    using norm_chars_fixed(1,2)[OF normalize_text_norm, of x] by (simp add: or_empty_def)
  also have "\<dots> = ?v" unfolding normalize_text_eq by (rule py_strip_idem)
  finally show ?thesis .
qed

lemma normalize_text_empty: "normalize_text None = []" "normalize_text (Some []) = []"
  by (simp_all add: normalize_text_eq or_empty_def py_lower_def)

lemma nazario_normalize_text_eq: "nazario_normalize_text x = normalize_text x"
proof (cases x)
  case None
  then show ?thesis by (simp add: nazario_normalize_text_def normalize_text_empty)
next
  case (Some y)
  show ?thesis
  proof (cases "y = []")
    case True
    then show ?thesis using Some by (simp add: nazario_normalize_text_def normalize_text_empty)
  next
    case False
    then show ?thesis using Some
      by (simp add: nazario_normalize_text_def normalize_text_def or_empty_def)
  qed
qed

text \<open>
  Claim C8. Normalising twice gives the same string as normalising once, for every
  input (a string or \<open>None\<close>) and for both copies of the function; the empty string
  and \<open>None\<close> normalise to the empty string, and \<open>"ACT NOW!!"\<close> to \<open>"act now"\<close>.
\<close>

theorem normalize_text_idempotent_total:
  "normalize_text (Some (normalize_text x)) = normalize_text x
   \<and> nazario_normalize_text (Some (nazario_normalize_text x)) = nazario_normalize_text x
   \<and> normalize_text None = [] \<and> normalize_text (Some []) = []
   \<and> nazario_normalize_text None = [] \<and> nazario_normalize_text (Some []) = []
   \<and> normalize_text (Some ''ACT NOW!!'') = ''act now''
   \<and> nazario_normalize_text (Some ''ACT NOW!!'') = ''act now''"
proof -
  have e: "normalize_text (Some ''ACT NOW!!'') = ''act now''" by code_simp
  show ?thesis
    unfolding nazario_normalize_text_eq
    using e normalize_text_empty normalize_text_idem[of x] by (simp only: simp_thms)
qed

section \<open>Compiled phrase matchers\<close>

lemma ci_prefix_Nil [simp]: "ci_prefix [] s"
  by (simp add: ci_prefix_def)

lemma ci_prefix_Cons_Nil [simp]: "\<not> ci_prefix (a # p) []"
  by (simp add: ci_prefix_def)

lemma ci_prefix_Cons_Cons:
  "ci_prefix (a # p) (c # cs) = (lower_chr c = lower_chr a \<and> ci_prefix p cs)"
  by (auto simp: ci_prefix_def)

lemma match_literals:
  "match_atoms True (map Literal p @ [WordBoundary]) prev s =
     (if ci_prefix p s \<and> word_boundary (prev_after prev (take (length p) s)) (drop (length p) s)
      then Some (length p) else None)"
proof (induction p arbitrary: prev s)
  case Nil
  show ?case by (simp add: prev_after_def)
next
  case (Cons a p)
  show ?case
  proof (cases s)
    case Nil
    then show ?thesis by simp
  next
    case (Cons c cs)
    have pa: "prev_after prev (take (length (a # p)) (c # cs)) = prev_after (Some c) (take (length p) cs)"
      by (simp add: prev_after_def)
    show ?thesis
      unfolding Cons pa using Cons.IH[of "Some c" cs]
      by (simp add: ci_prefix_Cons_Cons)
  qed
qed

lemma match_phrase:
  "match_atoms True (phrase_pattern p) prev s =
     (if word_boundary prev s \<and> ci_prefix p s
         \<and> word_boundary (prev_after prev (take (length p) s)) (drop (length p) s)
      then Some (length p) else None)"
  by (simp add: phrase_pattern_def match_literals)

lemma update_subset: "set (AList.update k v al) \<subseteq> insert (k, v) (set al)"
  by (induction al) auto

lemma compile_patterns_entries_aux:
  assumes "\<forall>(c, pl)\<in>set acc. \<forall>(m, ph)\<in>set pl. m = match_atoms True (phrase_pattern ph)"
  shows "\<forall>(c, pl)\<in>set (foldl (\<lambda>patterns (category, phrases).
              AList.update category
                (map (\<lambda>phrase. (match_atoms True (phrase_pattern phrase), phrase)) phrases)
                patterns) acc lexicon). \<forall>(m, ph)\<in>set pl. m = match_atoms True (phrase_pattern ph)"
  using assms
proof (induction lexicon arbitrary: acc)
  case Nil
  then show ?case by simp
next
  case (Cons e lexicon)
  obtain category phrases where e: "e = (category, phrases)" by (cases e)
  let ?v = "map (\<lambda>phrase. (match_atoms True (phrase_pattern phrase), phrase)) phrases"
  have "\<forall>(c, pl)\<in>set (AList.update category ?v acc). \<forall>(m, ph)\<in>set pl. m = match_atoms True (phrase_pattern ph)"
  proof -
    have "\<forall>(c, pl)\<in>insert (category, ?v) (set acc). \<forall>(m, ph)\<in>set pl. m = match_atoms True (phrase_pattern ph)"
      using Cons.prems by auto
    then show ?thesis using update_subset[of category ?v acc] by blast
  qed
  from Cons.IH[OF this] show ?case by (simp add: e)
qed

lemma compile_patterns_entries:
  "(category, plist) \<in> set (compile_patterns lexicon) \<Longrightarrow> (m, phrase) \<in> set plist
   \<Longrightarrow> m = match_atoms True (phrase_pattern phrase)"
  using compile_patterns_entries_aux[of "[]" lexicon]
  unfolding compile_patterns_def by fastforce

text \<open>
  Claim C9. Every matcher that \<open>compile_patterns\<close> builds for a phrase matches exactly
  at the positions where a word boundary is followed by the characters of the phrase,
  compared case-insensitively and one by one (whatever the characters are), followed by
  a word boundary. The phrase \<open>"now"\<close> has no match in \<open>"snowman"\<close> and one in
  \<open>"act now."\<close>; the phrase \<open>"a.c"\<close> does not match \<open>"abc"\<close>.
\<close>

theorem compiled_phrase_matcher_whole_word:
  assumes "(category, plist) \<in> set (compile_patterns lexicon)" and "(m, phrase) \<in> set plist"
  shows "m prev s =
           (if word_boundary prev s \<and> length phrase \<le> length s
               \<and> py_lower (take (length phrase) s) = py_lower phrase
               \<and> word_boundary (prev_after prev (take (length phrase) s)) (drop (length phrase) s)
            then Some (length phrase) else None)
         \<and> (phrase = ''now'' \<longrightarrow>
               finditer m None ''snowman'' = [] \<and> finditer m None ''act now.'' = [''now'']
               \<and> finditer m None ''Now, NOW and now_ or know'' = [''Now'', ''NOW''])
         \<and> (phrase = ''a.c'' \<longrightarrow> finditer m None ''abc a.c'' = [''a.c''])"
proof -
  have m: "m = match_atoms True (phrase_pattern phrase)"
    using assms by (rule compile_patterns_entries)
  have 1: "finditer (match_atoms True (phrase_pattern ''now'')) None ''snowman'' = []"
    by code_simp
  have 2: "finditer (match_atoms True (phrase_pattern ''now'')) None ''act now.'' = [''now'']"
    by code_simp
  have 3: "finditer (match_atoms True (phrase_pattern ''now'')) None ''Now, NOW and now_ or know''
             = [''Now'', ''NOW'']"
    by code_simp
  have 4: "finditer (match_atoms True (phrase_pattern ''a.c'')) None ''abc a.c'' = [''a.c'']"
    by code_simp
  have A: "m prev s =
           (if word_boundary prev s \<and> length phrase \<le> length s
               \<and> py_lower (take (length phrase) s) = py_lower phrase
               \<and> word_boundary (prev_after prev (take (length phrase) s)) (drop (length phrase) s)
            then Some (length phrase) else None)"
    unfolding m match_phrase ci_prefix_def py_lower_def by (rule if_cong) simp_all
  have B: "phrase = ''now'' \<longrightarrow>
               finditer m None ''snowman'' = [] \<and> finditer m None ''act now.'' = [''now'']
               \<and> finditer m None ''Now, NOW and now_ or know'' = [''Now'', ''NOW'']"
  proof
    assume "phrase = ''now''"
    then have m': "m = match_atoms True (phrase_pattern ''now'')" using m by (simp only:)
    show "finditer m None ''snowman'' = [] \<and> finditer m None ''act now.'' = [''now'']
               \<and> finditer m None ''Now, NOW and now_ or know'' = [''Now'', ''NOW'']"
      unfolding m' using 1 2 3 by (intro conjI)
  qed
  have C: "phrase = ''a.c'' \<longrightarrow> finditer m None ''abc a.c'' = [''a.c'']"
  proof
    assume "phrase = ''a.c''"
    then have m': "m = match_atoms True (phrase_pattern ''a.c'')" using m by (simp only:)
    show "finditer m None ''abc a.c'' = [''a.c'']"
      unfolding m' by (rule 4)
  qed
  show ?thesis using A B C by (intro conjI)
qed

theorem compiled_phrase_matcher_whole_word_witness:
  "(''urgency'', map (\<lambda>phrase. (match_atoms True (phrase_pattern phrase), phrase)) [''act now'', ''now''])
      \<in> set (compile_patterns [(''urgency'', [''act now'', ''now''])])
   \<and> (match_atoms True (phrase_pattern ''now''), ''now'')
      \<in> set (map (\<lambda>phrase. (match_atoms True (phrase_pattern phrase), phrase)) [''act now'', ''now''])
   \<and> finditer (match_atoms True (phrase_pattern ''now'')) None ''snowman'' = []
   \<and> finditer (match_atoms True (phrase_pattern ''now'')) None ''act now.'' = [''now'']"
proof -
  have a: "(''urgency'', map (\<lambda>phrase. (match_atoms True (phrase_pattern phrase), phrase)) [''act now'', ''now''])
      \<in> set (compile_patterns [(''urgency'', [''act now'', ''now''])])"
    by (simp add: compile_patterns_def)
  have b: "(match_atoms True (phrase_pattern ''now''), ''now'')
      \<in> set (map (\<lambda>phrase. (match_atoms True (phrase_pattern phrase), phrase)) [''act now'', ''now''])"
    by simp
  have c: "finditer (match_atoms True (phrase_pattern ''now'')) None ''snowman'' = []
           \<and> finditer (match_atoms True (phrase_pattern ''now'')) None ''act now.'' = [''now'']"
    using compiled_phrase_matcher_whole_word[OF a b, of None "[]"] by blast
  show ?thesis
    using a b c by blast
qed

section \<open>What the cue detector returns\<close>

lemma lexicon_distinct: "distinct (map fst CUE_LEXICON)" "list_all (\<lambda>(c, ps). distinct ps) CUE_LEXICON"
  by (simp_all add: CUE_LEXICON_def)

lemma update_fresh: "k \<notin> fst ` set al \<Longrightarrow> AList.update k v al = al @ [(k, v)]"
  by (induction al) auto

lemma foldl_update_distinct:
  "distinct (map fst xs) \<Longrightarrow> fst ` set acc \<inter> fst ` set xs = {}
   \<Longrightarrow> foldl (\<lambda>acc (k, v). AList.update k (f v) acc) acc xs = acc @ map (\<lambda>(k, v). (k, f v)) xs"
proof (induction xs arbitrary: acc)
  case Nil
  then show ?case by simp
next
  case (Cons x xs)
  obtain k v where x: "x = (k, v)" by (cases x)
  have fresh: "k \<notin> fst ` set acc" using Cons.prems(2) x by auto
  have d: "distinct (map fst xs)" using Cons.prems(1) by simp
  have disj: "fst ` set (acc @ [(k, f v)]) \<inter> fst ` set xs = {}"
    using Cons.prems x by auto
  show ?case
    using Cons.IH[OF d disj] by (simp add: x update_fresh[OF fresh])
qed

lemma compile_patterns_distinct:
  "distinct (map fst lexicon) \<Longrightarrow>
   compile_patterns lexicon =
     map (\<lambda>(category, phrases).
            (category, map (\<lambda>phrase. (match_atoms True (phrase_pattern phrase), phrase)) phrases)) lexicon"
  unfolding compile_patterns_def
  using foldl_update_distinct[of lexicon "[]"
          "map (\<lambda>phrase. (match_atoms True (phrase_pattern phrase), phrase))"]
  by simp

lemma count_phrases_Some:
  "count_phrases (map (\<lambda>phrase. (match_atoms True (phrase_pattern phrase), phrase)) ps) (Some t) d =
     Inr (foldl (\<lambda>d p. if 0 < phrase_count t p then AList.update p (phrase_count t p) d else d) d ps)"
  by (induction ps arbitrary: d) (simp_all add: phrase_count_def Let_def)

lemma foldl_counts_distinct:
  "distinct ps \<Longrightarrow> fst ` set d \<inter> set ps = {} \<Longrightarrow>
   foldl (\<lambda>d p. if 0 < phrase_count t p then AList.update p (phrase_count t p) d else d) d ps =
     d @ phrase_counts t ps"
proof (induction ps arbitrary: d)
  case Nil
  then show ?case by (simp add: phrase_counts_def)
next
  case (Cons p ps)
  have fresh: "p \<notin> fst ` set d" using Cons.prems(2) by auto
  have dps: "distinct ps" using Cons.prems(1) by simp
  show ?case
  proof (cases "0 < phrase_count t p")
    case True
    have disj: "fst ` set (d @ [(p, phrase_count t p)]) \<inter> set ps = {}"
      using Cons.prems by auto
    show ?thesis
      using Cons.IH[OF dps disj] True by (simp add: update_fresh[OF fresh] phrase_counts_def)
  next
    case False
    have disj: "fst ` set d \<inter> set ps = {}" using Cons.prems by auto
    show ?thesis
      using Cons.IH[OF dps disj] False by (simp add: phrase_counts_def)
  qed
qed

lemma count_phrases_distinct:
  "distinct ps \<Longrightarrow>
   count_phrases (map (\<lambda>phrase. (match_atoms True (phrase_pattern phrase), phrase)) ps) (Some t) [] =
     Inr (phrase_counts t ps)"
  using foldl_counts_distinct[of ps "[]" t] by (simp add: count_phrases_Some)

lemma detect_loop_Some:
  "list_all (\<lambda>(c, ps). distinct ps) lexicon \<Longrightarrow>
   detect_loop (map (\<lambda>(category, phrases).
            (category, map (\<lambda>phrase. (match_atoms True (phrase_pattern phrase), phrase)) phrases)) lexicon)
       (Some t) results =
     Inr (foldl (\<lambda>acc (c, ps). AList.update c (phrase_counts t ps) acc) results lexicon)"
proof (induction lexicon arbitrary: results)
  case Nil
  then show ?case by simp
next
  case (Cons e lexicon)
  obtain c ps where e: "e = (c, ps)" by (cases e)
  have d: "distinct ps" and rest: "list_all (\<lambda>(c, ps). distinct ps) lexicon"
    using Cons.prems e by auto
  show ?case
    using Cons.IH[OF rest] by (simp add: e count_phrases_distinct[OF d])
qed

lemma detect_cues_Some:
  "detect_cues (Some t) = Inr (map (\<lambda>(c, ps). (c, phrase_counts t ps)) CUE_LEXICON)"
  unfolding detect_cues_def PATTERNS_def compile_patterns_distinct[OF lexicon_distinct(1)]
    detect_loop_Some[OF lexicon_distinct(2)]
  using foldl_update_distinct[OF lexicon_distinct(1), of "[]" "phrase_counts t"]
  by simp

lemma phrase_count_nonneg: "0 \<le> phrase_count t p"
  by (simp add: phrase_count_def)

lemma sum_phrase_counts: "sum_list (map snd (phrase_counts t ps)) = sum_list (map (phrase_count t) ps)"
proof (induction ps)
  case Nil
  then show ?case by (simp add: phrase_counts_def)
next
  case (Cons p ps)
  then show ?case
    using phrase_count_nonneg[of t p] by (auto simp: phrase_counts_def)
qed

lemma summarize_counts_lexicon:
  "summarize_counts (map (\<lambda>(c, ps). (c, phrase_counts t ps)) CUE_LEXICON) =
     map (\<lambda>(c, ps). (c, sum_list (map (phrase_count t) ps))) CUE_LEXICON"
proof -
  have "summarize_counts (map (\<lambda>(c, ps). (c, phrase_counts t ps)) CUE_LEXICON) =
        foldl (\<lambda>acc (c, ps). AList.update c (sum_list (map snd (phrase_counts t ps))) acc) [] CUE_LEXICON"
    unfolding summarize_counts_def foldl_map
    by (rule arg_cong[where f="\<lambda>f. foldl f [] CUE_LEXICON"]) (auto simp: fun_eq_iff)
  also have "\<dots> = map (\<lambda>(c, ps). (c, sum_list (map snd (phrase_counts t ps)))) CUE_LEXICON"
    using foldl_update_distinct[OF lexicon_distinct(1), of "[]" "\<lambda>ps. sum_list (map snd (phrase_counts t ps))"]
    by simp
  finally show ?thesis by (simp add: sum_phrase_counts)
qed

lemma map_of_map_snd:
  "map_of (map (\<lambda>(c, ps). (c, f ps)) xs) k = map_option f (map_of xs k)"
  by (induction xs) auto

lemma urgency_phrases:
  "map_of CUE_LEXICON ''urgency'' =
     Some [''urgent action required'', ''act now'', ''immediate action'', ''final notice'',
         ''expires soon'', ''deadline'', ''verify within 24 hours'',
         ''urgent'', ''immediately'', ''now'', ''today'', ''minutes'', ''hours'', ''24 hours'']"
  by (simp add: CUE_LEXICON_def)

lemma finditer_phrase_empty: "finditer (match_atoms True (phrase_pattern p)) None [] = []"
proof -
  have "match_atoms True (phrase_pattern p) None [] = None"
    unfolding match_phrase by (simp add: word_boundary_def)
  then show ?thesis by simp
qed

lemma phrase_count_empty: "phrase_count [] p = 0"
  unfolding phrase_count_def finditer_phrase_empty by simp

lemma sum_phrase_count_empty: "sum_list (map (phrase_count []) ps) = 0"
  by (induction ps) (simp_all add: phrase_count_empty)


lemma phrase_counts_empty: "phrase_counts [] ps = []"
  by (simp add: phrase_counts_def phrase_count_empty)

lemma deobfuscate_empty: "deobfuscate_iocs [] = []"
  by (simp add: deobfuscate_iocs_def)

lemma surface_extras_empty:
  "surface_extras [] = \<lparr>all_caps_words = 0, exclamations = 0, money_symbols = 0, links = 0\<rparr>"
  by (simp add: surface_extras_def RE_ALL_CAPS_def RE_EXCLAM_def RE_MONEY_def RE_LINK_def
        m_plus_def word_boundary_def ci_prefix_def)

lemma detect_cues_None: "detect_cues None = Inl TypeError"
  unfolding detect_cues_def PATTERNS_def compile_patterns_distinct[OF lexicon_distinct(1)]
  by (simp add: CUE_LEXICON_def)

lemma detect_with_extras_totals:
  "detect_with_extras text0 =
     (let text = deobfuscate_iocs (case text0 of None \<Rightarrow> [] | Some t \<Rightarrow> t)
      in Inr (map (\<lambda>(c, ps). (c, sum_list (map (phrase_count text) ps))) CUE_LEXICON,
              surface_extras text))"
  by (simp add: detect_with_extras_def detect_cues_Some summarize_counts_lexicon Let_def)



section \<open>Year resolver\<close>

lemma decimal_19_20: "is_decimal (CHR ''1'')" "is_decimal (CHR ''9'')" "is_decimal (CHR ''2'')" "is_decimal (CHR ''0'')"
  by code_simp+

lemma is_decimal_isdigit: "is_decimal c \<Longrightarrow> py_isdigit c"
  by (simp add: py_isdigit_def)

lemma YEAR_RX_Some:
  assumes "YEAR_RX prev s = Some n"
  shows "n = 4 \<and> length (take n s) = 4 \<and> list_all is_decimal (take n s)"
proof -
  have c: "(take 2 s = ''19'' \<or> take 2 s = ''20'') \<and> 4 \<le> length s \<and> is_decimal (s ! 2) \<and> is_decimal (s ! 3)"
    and n: "n = 4"
    using assms by (auto simp: YEAR_RX_def split: if_splits)
  obtain a b c' d r where s: "s = a # b # c' # d # r"
    using c by (cases s; cases "tl s"; cases "tl (tl s)"; cases "tl (tl (tl s))") auto
  have "is_decimal a \<and> is_decimal b" using c s decimal_19_20 by auto
  then show ?thesis using c s n by simp
qed

lemma re_search_YEAR_RX:
  "re_search YEAR_RX prev s = Some y \<Longrightarrow> length y = 4 \<and> list_all is_decimal y"
proof (induction s arbitrary: prev)
  case Nil
  then show ?case by (simp add: YEAR_RX_def split: option.splits if_splits)
next
  case (Cons c cs)
  show ?case
  proof (cases "YEAR_RX prev (c # cs)")
    case None
    then show ?thesis using Cons by simp
  next
    case (Some n)
    then have y: "y = take n (c # cs)" using Cons.prems by simp
    from YEAR_RX_Some[OF Some]
    have "length (take n (c # cs)) = 4 \<and> list_all is_decimal (take n (c # cs))" by blast
    then show ?thesis unfolding y .
  qed
qed

lemma valid_year_digits:
  assumes "length y = 4" and "list_all is_decimal y"
  shows "\<exists>n. py_int y = Inr n \<and> valid_year y = Inr (YEAR_MIN \<le> n \<and> n \<le> YEAR_MAX)"
proof -
  have ne: "y \<noteq> []" using assms(1) by auto
  have dig: "list_all py_isdigit y"
    using assms(2) by (simp add: list_all_iff is_decimal_isdigit)
  show ?thesis
    using ne dig assms by (simp add: valid_year_def py_int_def)
qed

lemma valid_year_Nil: "valid_year [] = Inr False"
  by (simp add: valid_year_def)

lemma extract_year_cases:
  "extract_year_from_text s = Inr []
   \<or> (\<exists>y. extract_year_from_text s = Inr y \<and> valid_year y = Inr True
            \<and> re_search YEAR_RX None s = Some y)"
proof (cases "s = []")
  case True
  then show ?thesis by (simp add: extract_year_from_text_def)
next
  case False
  show ?thesis
  proof (cases "re_search YEAR_RX None s")
    case None
    then show ?thesis using False by (simp add: extract_year_from_text_def)
  next
    case (Some y)
    obtain n where n: "valid_year y = Inr (YEAR_MIN \<le> n \<and> n \<le> YEAR_MAX)"
      using valid_year_digits re_search_YEAR_RX[OF Some] by blast
    show ?thesis
      using False Some n by (cases "YEAR_MIN \<le> n \<and> n \<le> YEAR_MAX") (simp_all add: extract_year_from_text_def)
  qed
qed

lemma date_year_out_of_range_total: "\<exists>b. date_year_out_of_range s = Inr b"
proof (cases "s = []")
  case True
  then show ?thesis by (auto simp: date_year_out_of_range_def)
next
  case False
  show ?thesis
  proof (cases "re_search YEAR_RX None s")
    case None
    then show ?thesis using False by (auto simp: date_year_out_of_range_def)
  next
    case (Some y)
    obtain n where n: "valid_year y = Inr (YEAR_MIN \<le> n \<and> n \<le> YEAR_MAX)"
      using valid_year_digits re_search_YEAR_RX[OF Some] by blast
    show ?thesis
      using False Some n by (auto simp: date_year_out_of_range_def)
  qed
qed








lemma guess_year_step:
  "\<exists>yr a'. guess_year_with_audit row filename a = Inr (yr, a')
     \<and> three_way a' = three_way a + 1
     \<and> date_valid a \<le> date_valid a' \<and> fallback_file a \<le> fallback_file a' \<and> unknown a \<le> unknown a'
     \<and> (date_out_of_range a' = date_out_of_range a
          \<or> (date_out_of_range a' = date_out_of_range a + 1 \<and> date_valid a' = date_valid a))"
proof -
  let ?d = "safe_get row ''date''"
  obtain b where b: "date_year_out_of_range ?d = Inr b" using date_year_out_of_range_total by blast
  consider (none) "extract_year_from_text ?d = Inr []"
    | (some) y where "extract_year_from_text ?d = Inr y" "valid_year y = Inr True"
    using extract_year_cases[of ?d] by blast
  then show ?thesis
  proof cases
    case some
    then show ?thesis by (simp add: guess_year_with_audit_def three_way_def)
  next
    case none
    consider (fnone) "extract_year_from_text filename = Inr []"
      | (fsome) y where "extract_year_from_text filename = Inr y" "valid_year y = Inr True"
      using extract_year_cases[of filename] by blast
    then show ?thesis
    proof cases
      case fnone
      then show ?thesis using none b
        by (cases b) (simp_all add: guess_year_with_audit_def three_way_def valid_year_Nil)
    next
      case fsome
      then show ?thesis using none b
        by (cases b) (simp_all add: guess_year_with_audit_def three_way_def valid_year_Nil)
    qed
  qed
qed

section \<open>Census aggregator\<close>

lemma process_row_skip:
  "\<not> is_email_like row \<Longrightarrow>
   process_row name row (g, f) =
     Inr (g\<lparr>total_rows_all := total_rows_all g + 1\<rparr>, f\<lparr>rows_in_file := rows_in_file f + 1\<rparr>)"
  by (simp add: process_row_def Let_def)

lemma process_row_email:
  assumes el: "is_email_like row"
  shows "\<exists>g' f' yr a'. process_row name row (g, f) = Inr (g', f')
     \<and> guess_year_with_audit row name (year_audit g) = Inr (yr, a')
     \<and> year_audit g' = a'
     \<and> email_like_all g' = email_like_all g + 1
     \<and> sig_counter g' = AList.update (build_signature row)
                           (counter_get (sig_counter g) (build_signature row) + 1) (sig_counter g)"
proof -
  obtain yr a' where gy: "guess_year_with_audit row name (year_audit g) = Inr (yr, a')"
    using guess_year_step[of row name "year_audit g"] by blast
  show ?thesis
    using el gy by (simp add: process_row_def Let_def split: option.splits)
qed

lemma update_keys_set: "set (map fst (AList.update k v al)) = insert k (set (map fst al))"
  by (induction al) auto

lemma process_row_inv:
  assumes inv: "census_inv g rows"
  shows "\<exists>g' f'. process_row name row (g, f) = Inr (g', f') \<and> census_inv g' (rows @ [row])"
proof (cases "is_email_like row")
  case False
  then show ?thesis using inv by (simp add: process_row_skip census_inv_def)
next
  case True
  obtain g' f' yr a' where r: "process_row name row (g, f) = Inr (g', f')"
    and gy: "guess_year_with_audit row name (year_audit g) = Inr (yr, a')"
    and ya: "year_audit g' = a'"
    and n: "email_like_all g' = email_like_all g + 1"
    and sc: "sig_counter g' = AList.update (build_signature row)
                           (counter_get (sig_counter g) (build_signature row) + 1) (sig_counter g)"
    using process_row_email[OF True] by blast
  have st: "three_way a' = three_way (year_audit g) + 1
     \<and> date_valid (year_audit g) \<le> date_valid a' \<and> fallback_file (year_audit g) \<le> fallback_file a'
     \<and> unknown (year_audit g) \<le> unknown a'
     \<and> (date_out_of_range a' = date_out_of_range (year_audit g)
          \<or> (date_out_of_range a' = date_out_of_range (year_audit g) + 1
              \<and> date_valid a' = date_valid (year_audit g)))"
    using guess_year_step[of row name "year_audit g"] gy by simp
  have 1: "email_like_all g' = int (length (filter is_email_like (rows @ [row])))"
    using inv n True by (simp add: census_inv_def)
  have 2: "three_way (year_audit g') = email_like_all g'"
    using inv n st ya by (simp add: census_inv_def)
  have 3: "date_out_of_range (year_audit g') \<le> fallback_file (year_audit g') + unknown (year_audit g')"
    using inv st ya by (auto simp: census_inv_def three_way_def)
  have 4: "distinct (map fst (sig_counter g'))"
    using inv sc by (simp add: census_inv_def distinct_update)
  have 5: "set (map fst (sig_counter g')) = build_signature ` set (filter is_email_like (rows @ [row]))"
    using inv True unfolding sc update_keys_set census_inv_def by auto
  show ?thesis using r 1 2 3 4 5 unfolding census_inv_def by blast
qed

lemma process_rows_inv:
  "census_inv g rows \<Longrightarrow>
   \<exists>g' f'. process_rows name rs (g, f) = Inr (g', f') \<and> census_inv g' (rows @ rs)"
proof (induction rs arbitrary: g f rows)
  case Nil
  then show ?case by simp
next
  case (Cons r rs)
  obtain g1 f1 where 1: "process_row name r (g, f) = Inr (g1, f1)" and i1: "census_inv g1 (rows @ [r])"
    using process_row_inv[OF Cons.prems] by blast
  obtain g2 f2 where 2: "process_rows name rs (g1, f1) = Inr (g2, f2)"
    and i2: "census_inv g2 ((rows @ [r]) @ rs)"
    using Cons.IH[OF i1] by blast
  show ?case using 1 2 i2 by simp
qed

lemma census_inv_file_counts: "census_inv (g\<lparr>file_counts := x\<rparr>) rows = census_inv g rows"
  by (simp add: census_inv_def)

lemma process_file_inv:
  assumes "census_inv g rows"
  shows "\<exists>g'. process_file path g = Inr g' \<and> census_inv g' (rows @ file_rows path)"
proof -
  obtain g1 f1 where 1: "process_rows (file_name path) (file_rows path)
             (g, \<lparr>rows_in_file = 0, email_like_in_file = 0, seen_sigs_this_file = []\<rparr>) = Inr (g1, f1)"
    and i: "census_inv g1 (rows @ file_rows path)"
    using process_rows_inv[OF assms] by blast
  show ?thesis using 1 i by (simp add: process_file_def census_inv_file_counts)
qed

lemma process_files_inv:
  "census_inv g rows \<Longrightarrow>
   \<exists>g'. process_files files g = Inr g' \<and> census_inv g' (rows @ concat (map file_rows files))"
proof (induction files arbitrary: g rows)
  case Nil
  then show ?case by simp
next
  case (Cons p ps)
  obtain g1 where 1: "process_file p g = Inr g1" and i1: "census_inv g1 (rows @ file_rows p)"
    using process_file_inv[OF Cons.prems] by blast
  obtain g2 where 2: "process_files ps g1 = Inr g2"
    and i2: "census_inv g2 ((rows @ file_rows p) @ concat (map file_rows ps))"
    using Cons.IH[OF i1] by blast
  show ?case using 1 2 i2 by simp
qed

lemma census_init_inv: "census_inv census_init []"
  by (simp add: census_inv_def census_init_def three_way_def)

lemma main_census_inv:
  "\<exists>g. main_census files = Inr (g, main_totals g) \<and> census_inv g (concat (map file_rows files))"
proof -
  obtain g where "process_files files census_init = Inr g"
    and "census_inv g ([] @ concat (map file_rows files))"
    using process_files_inv[OF census_init_inv] by blast
  then show ?thesis by (simp add: main_census_def)
qed







end
